theory Spec2Isabelle
  imports Main
begin

section \<open>Errors\<close>

text \<open>
  The exceptions the blog application can raise, as values.  \<open>Resolver404\<close> is what URL
  resolution raises when no pattern matches, \<open>Http404\<close> is what \<open>get_object_or_404\<close>
  raises, \<open>NoReverseMatch\<close> is what \<open>reverse\<close> raises, \<open>MultipleObjectsReturned\<close>
  is what a single-object lookup raises when more than one row satisfies it, and
  \<open>ValueError\<close> is what \<open>str\<close> raises on an integer of too many digits.
\<close>

datatype error = Resolver404 | Http404 | NoReverseMatch | MultipleObjectsReturned | ValueError

section \<open>Path converters\<close>

text \<open>
  \<open>urls.py\<close> uses two of the framework's path converters: \<open><int:...>\<close>, whose regular
  expression is \<open>[0-9]+\<close> and which converts with \<open>int(value)\<close>, and \<open><slug:...>\<close>, whose
  regular expression is \<open>[-a-zA-Z0-9_]+\<close> and which keeps the text.
\<close>

datatype converter = IntConverter | SlugConverter

datatype pyval = PyInt int | PyStr string

definition is_digit :: "char \<Rightarrow> bool" where
  "is_digit c = (c \<in> set ''0123456789'')"

definition is_slug_char :: "char \<Rightarrow> bool" where
  "is_slug_char c =
     (c \<in> set ''-abcdefghijklmnopqrstuvwxyzABCDEFGHIJKLMNOPQRSTUVWXYZ0123456789_'')"

fun regex_class :: "converter \<Rightarrow> char \<Rightarrow> bool" where
  "regex_class IntConverter c = is_digit c"
| "regex_class SlugConverter c = is_slug_char c"

text \<open>A text matches a converter's regular expression: one or more characters of its class.\<close>

definition regex_ok :: "converter \<Rightarrow> string \<Rightarrow> bool" where
  "regex_ok cv s = (s \<noteq> [] \<and> list_all (regex_class cv) s)"

definition digit_val :: "char \<Rightarrow> int" where
  "digit_val c = int (of_char c) - 48"

text \<open>
  \<open>int(value)\<close> on a string of decimal digits.  (The interpreter refuses a text of more
  than 4300 digits, and the pattern then does not match; that bound is left out here, so
  the model resolves every path the program resolves, and to the same result.)
\<close>

definition int_of_digits :: "string \<Rightarrow> int" where
  "int_of_digits s = foldl (\<lambda>a c. 10 * a + digit_val c) 0 s"

fun to_python :: "converter \<Rightarrow> string \<Rightarrow> pyval" where
  "to_python IntConverter s = PyInt (int_of_digits s)"
| "to_python SlugConverter s = PyStr s"

text \<open>
  The decimal text of an integer, with a minus sign when negative: what \<open>str(n)\<close> returns
  whenever it returns (\<open>py_str\<close> below is \<open>str\<close> itself, with its limit).
\<close>

definition digit_char :: "nat \<Rightarrow> char" where
  "digit_char n = ''0123456789'' ! n"

fun str_nat :: "nat \<Rightarrow> string" where
  "str_nat n = (if n < 10 then [digit_char n] else str_nat (n div 10) @ [digit_char (n mod 10)])"

declare str_nat.simps [simp del]

definition str_int :: "int \<Rightarrow> string" where
  "str_int i = (if i < 0 then CHR ''-'' # str_nat (nat (- i)) else str_nat (nat i))"

text \<open>
  The interpreter limits the conversion of an integer to decimal text: with the default
  setting, \<open>str\<close> (and \<open>repr\<close>) of an integer whose absolute value has more than 4300
  digits raises \<open>ValueError\<close>.  The sign is not counted.
\<close>

definition max_str_digits :: nat where
  "max_str_digits = 4300"

fun py_str :: "pyval \<Rightarrow> error + string" where
  "py_str (PyInt i) =
     (if max_str_digits < length (str_nat (nat \<bar>i\<bar>)) then Inl ValueError
      else Inr (str_int i))"
| "py_str (PyStr s) = Inr s"

text \<open>Both converters build the URL text with \<open>str(value)\<close>.\<close>

definition to_url :: "converter \<Rightarrow> pyval \<Rightarrow> error + string" where
  "to_url cv v = py_str v"

section \<open>Routes\<close>

text \<open>
  A route string such as \<open>articles/<int:year>/<int:month>/<int:day>/<slug:slug>/\<close> is a
  sequence of literal pieces and converter parameters.
\<close>

datatype part = Lit string | Param converter string

datatype view = HomePageView | ArticleList | ArticleCategoryList | ArticleDetail

record url_pattern =
  route :: "part list"
  view_class :: view
  name :: string

definition urlpatterns :: "url_pattern list" where
  "urlpatterns =
     [\<lparr>route = [], view_class = HomePageView, name = ''home''\<rparr>,
      \<lparr>route = [Lit ''articles''], view_class = ArticleList, name = ''articles-list''\<rparr>,
      \<lparr>route = [Lit ''articles/category/'', Param SlugConverter ''slug'', Lit ''/''],
       view_class = ArticleCategoryList, name = ''articles-category-list''\<rparr>,
      \<lparr>route = [Lit ''articles/'', Param IntConverter ''year'', Lit ''/'',
                Param IntConverter ''month'', Lit ''/'', Param IntConverter ''day'', Lit ''/'',
                Param SlugConverter ''slug'', Lit ''/''],
       view_class = ArticleDetail, name = ''news-detail''\<rparr>]"

type_synonym kwargs = "(string \<times> pyval) list"

fun first_some :: "('a \<Rightarrow> 'b option) \<Rightarrow> 'a list \<Rightarrow> 'b option" where
  "first_some f [] = None"
| "first_some f (x # xs) = (case f x of Some y \<Rightarrow> Some y | None \<Rightarrow> first_some f xs)"

text \<open>
  Matching a route against a path is matching the regular expression the framework
  compiles from it, anchored at both ends: a literal must be a prefix of what is left; a
  parameter takes one or more characters of its converter's class, the longest run first
  and then shorter ones (the regular expression backtracks); after the last part nothing
  may be left.  Each captured text is converted with the converter's \<open>to_python\<close>.
\<close>

primrec match_parts :: "part list \<Rightarrow> string \<Rightarrow> kwargs option" where
  "match_parts [] s = (if s = [] then Some [] else None)"
| "match_parts (p # ps) s =
     (case p of
        Lit l \<Rightarrow>
          (if take (length l) s = l then match_parts ps (drop (length l) s) else None)
      | Param cv n \<Rightarrow>
          first_some
            (\<lambda>k. case match_parts ps (drop k s) of
                    None \<Rightarrow> None
                  | Some kw \<Rightarrow> Some ((n, to_python cv (take k s)) # kw))
            (rev [1..<Suc (length (takeWhile (regex_class cv) s))]))"

record resolver_match =
  func :: view
  kwargs :: kwargs
  url_name :: string

text \<open>
  The project's root URL configuration is not part of the application; the tests resolve
  \<open>/\<close> to the home view and \<open>/articles\<close> to the list view, so the application's patterns
  are mounted at the root: a path must start with \<open>/\<close>, and the rest is tried against the
  patterns in order, the first match winning.
\<close>

definition resolve :: "string \<Rightarrow> error + resolver_match" where
  "resolve path =
     (case path of
        [] \<Rightarrow> Inl Resolver404
      | c # rest \<Rightarrow>
          if c \<noteq> CHR ''/'' then Inl Resolver404
          else (case first_some
                       (\<lambda>p. map_option
                               (\<lambda>kw. \<lparr>func = view_class p, kwargs = kw, url_name = name p\<rparr>)
                               (match_parts (route p) rest))
                       urlpatterns of
                  None \<Rightarrow> Inl Resolver404
                | Some m \<Rightarrow> Inr m))"

text \<open>
  Building a path from a route name and keyword arguments: the pattern of that name is
  looked up; the argument names must be exactly the pattern's parameters; each value is
  turned into text by its converter; the candidate path must match the pattern's regular
  expression, otherwise there is no reverse match.  The result carries the root prefix
  \<open>/\<close>.  (The framework then percent-quotes the path; texts that match \<open>[0-9]+\<close> or
  \<open>[-a-zA-Z0-9_]+\<close> hold no character that quoting changes.)

  An integer argument too long for \<open>str\<close> makes the whole call raise \<open>ValueError\<close>: either
  the converter's \<open>to_url\<close> raises it, or the pattern is passed over and the message of
  \<open>NoReverseMatch\<close>, which prints the keyword arguments, cannot be built.
\<close>

fun param_names :: "part list \<Rightarrow> string list" where
  "param_names [] = []"
| "param_names (Lit l # ps) = param_names ps"
| "param_names (Param cv n # ps) = n # param_names ps"

fun build :: "part list \<Rightarrow> kwargs \<Rightarrow> error + string" where
  "build [] kw = Inr []"
| "build (Lit l # ps) kw =
     (case build ps kw of Inl e \<Rightarrow> Inl e | Inr t \<Rightarrow> Inr (l @ t))"
| "build (Param cv n # ps) kw =
     (case (case map_of kw n of None \<Rightarrow> Inr [] | Some v \<Rightarrow> to_url cv v) of
        Inl e \<Rightarrow> Inl e
      | Inr u \<Rightarrow> (case build ps kw of Inl e \<Rightarrow> Inl e | Inr t \<Rightarrow> Inr (u @ t)))"

text \<open>The error raised when no pattern fits: its message prints the keyword arguments.\<close>

definition no_reverse_match :: "kwargs \<Rightarrow> error" where
  "no_reverse_match kw =
     (if list_ex (\<lambda>kv. case py_str (snd kv) of Inl e \<Rightarrow> True | Inr t \<Rightarrow> False) kw
      then ValueError else NoReverseMatch)"

definition reverse :: "string \<Rightarrow> kwargs \<Rightarrow> error + string" where
  "reverse viewname kw =
     (case find (\<lambda>p. name p = viewname) urlpatterns of
        None \<Rightarrow> Inl NoReverseMatch
      | Some p \<Rightarrow>
          if set (map fst kw) \<noteq> set (param_names (route p))
          then Inl (no_reverse_match kw)
          else (case build (route p) kw of
                  Inl e \<Rightarrow> Inl e
                | Inr t \<Rightarrow>
                    if match_parts (route p) t = None then Inl (no_reverse_match kw)
                    else Inr (CHR ''/'' # t)))"

section \<open>Entity store\<close>

text \<open>
  The model classes (\<open>Category\<close>, \<open>Article\<close>, \<open>ArticleImage\<close>) are declared outside the
  files at hand; their fields are the ones the admin configuration and the tests name,
  with the framework's primary key \<open>pk\<close> and the foreign-key columns.
\<close>

record Category =
  c_pk :: nat
  category :: string
  c_slug :: string

record datetime =
  year :: int
  month :: int
  day :: int
  hour :: int
  minute :: int
  second :: int

record Article =
  a_pk :: nat
  title :: string
  description :: string
  a_slug :: string
  pub_date :: datetime
  main_page :: bool
  category_id :: "nat option"

record ArticleImage =
  i_pk :: nat
  i_title :: string
  image :: string
  article_id :: nat

record store =
  categories :: "Category list"
  articles :: "Article list"
  images :: "ArticleImage list"

text \<open>
  \<open>get_object_or_404(Model, **lookup)\<close>: the single row that satisfies the lookup; no row
  raises \<open>Http404\<close>, more than one raises \<open>MultipleObjectsReturned\<close>.
\<close>

definition get_object_or_404 :: "'a list \<Rightarrow> ('a \<Rightarrow> bool) \<Rightarrow> error + 'a" where
  "get_object_or_404 rows lookup =
     (case filter lookup rows of
        [] \<Rightarrow> Inl Http404
      | [obj] \<Rightarrow> Inr obj
      | _ \<Rightarrow> Inl MultipleObjectsReturned)"

section \<open>Admin: deleting one image\<close>

text \<open>
  \<open>ArticleAdmin.delete_file(pk, request)\<close> fetches the image with that primary key and
  deletes it.  The store is threaded through; an exception leaves it as it was.
\<close>

definition delete_obj :: "ArticleImage \<Rightarrow> store \<Rightarrow> store" where
  "delete_obj obj st = st\<lparr>images := filter (\<lambda>i. i_pk i \<noteq> i_pk obj) (images st)\<rparr>"

definition delete_file :: "nat \<Rightarrow> store \<Rightarrow> (error + unit) \<times> store" where
  "delete_file pk st =
     (case get_object_or_404 (images st) (\<lambda>i. i_pk i = pk) of
        Inl e \<Rightarrow> (Inl e, st)
      | Inr obj \<Rightarrow> (Inr (), delete_obj obj st))"

section \<open>Views\<close>

datatype ctxval = Items "Article list" | Item Article

record response =
  status_code :: nat
  template_name :: string
  context_data :: "(string \<times> ctxval) list"

text \<open>
  Modelled from the spec: the view classes \<open>ArticleList\<close>, \<open>ArticleCategoryList\<close> and
  \<open>ArticleDetail\<close> (module \<open>views\<close>) are missing.  The listing of all articles returns
  every article, exposed as \<open>items\<close>, rendered with \<open>articles_list.html\<close>.
\<close>

definition articles_list :: "store \<Rightarrow> response" where
  "articles_list st =
     \<lparr>status_code = 200, template_name = ''articles_list.html'',
      context_data = [(''items'', Items (articles st))]\<rparr>"

text \<open>
  Modelled from the spec: the listing by category filters the articles whose
  \<open>category.slug\<close> equals the slug of the path; an unknown slug or a category without
  articles gives an empty result with a success status.
\<close>

definition category_slug_is :: "store \<Rightarrow> string \<Rightarrow> Article \<Rightarrow> bool" where
  "category_slug_is st slug a =
     (case category_id a of
        None \<Rightarrow> False
      | Some cid \<Rightarrow> list_ex (\<lambda>c. c_pk c = cid \<and> c_slug c = slug) (categories st))"

definition articles_category_list :: "store \<Rightarrow> string \<Rightarrow> response" where
  "articles_category_list st slug =
     \<lparr>status_code = 200, template_name = ''articles_list.html'',
      context_data = [(''items'', Items (filter (category_slug_is st slug) (articles st)))]\<rparr>"

text \<open>
  Modelled from the spec: the detail view looks up (with \<open>get_object_or_404\<close>) the article
  whose slug matches and whose \<open>pub_date\<close> falls on the calendar day given by year, month
  and day, and exposes it as \<open>item\<close>, rendered with \<open>article_detail.html\<close>.
\<close>

definition on_day :: "int \<Rightarrow> int \<Rightarrow> int \<Rightarrow> Article \<Rightarrow> bool" where
  "on_day y m d a =
     (year (pub_date a) = y \<and> month (pub_date a) = m \<and> day (pub_date a) = d)"

definition news_detail :: "store \<Rightarrow> int \<Rightarrow> int \<Rightarrow> int \<Rightarrow> string \<Rightarrow> error + response" where
  "news_detail st y m d slug =
     (case get_object_or_404 (articles st) (\<lambda>a. a_slug a = slug \<and> on_day y m d a) of
        Inl e \<Rightarrow> Inl e
      | Inr a \<Rightarrow>
          Inr \<lparr>status_code = 200, template_name = ''article_detail.html'',
               context_data = [(''item'', Item a)]\<rparr>)"

text \<open>The items a listing response carries.\<close>

definition items_of :: "response \<Rightarrow> Article list" where
  "items_of r = (case map_of (context_data r) ''items'' of Some (Items xs) \<Rightarrow> xs | _ \<Rightarrow> [])"

section \<open>Example data\<close>

text \<open>The fixtures of the test suite: two categories with one article each, and two images.\<close>

definition test_category :: Category where
  "test_category = \<lparr>c_pk = 1, category = ''Test Category'', c_slug = ''test-category''\<rparr>"

definition other_category :: Category where
  "other_category = \<lparr>c_pk = 2, category = ''Other Category'', c_slug = ''other-category''\<rparr>"

definition test_article :: Article where
  "test_article =
     \<lparr>a_pk = 1, title = ''Test Article'', description = ''Test Description'',
      a_slug = ''test-article'',
      pub_date = \<lparr>year = 2024, month = 1, day = 15, hour = 10, minute = 30, second = 0\<rparr>,
      main_page = False, category_id = Some 1\<rparr>"

definition other_article :: Article where
  "other_article =
     \<lparr>a_pk = 2, title = ''Other Article'', description = ''Other Description'',
      a_slug = ''other-article'',
      pub_date = \<lparr>year = 2024, month = 2, day = 3, hour = 8, minute = 0, second = 0\<rparr>,
      main_page = False, category_id = Some 2\<rparr>"

definition cover_image :: ArticleImage where
  "cover_image = \<lparr>i_pk = 1, i_title = ''cover'', image = ''cover.png'', article_id = 1\<rparr>"

definition inline_image :: ArticleImage where
  "inline_image = \<lparr>i_pk = 2, i_title = ''inline'', image = ''inline.png'', article_id = 1\<rparr>"

definition test_store :: store where
  "test_store =
     \<lparr>categories = [test_category, other_category],
      articles = [test_article, other_article],
      images = [cover_image, inline_image]\<rparr>"

section \<open>Single-object lookup\<close>

lemma get_object_none:
  "filter lookup rows = [] \<Longrightarrow> get_object_or_404 rows lookup = Inl Http404"
  by (simp add: get_object_or_404_def)

lemma get_object_one:
  "filter lookup rows = [obj] \<Longrightarrow> get_object_or_404 rows lookup = Inr obj"
  by (simp add: get_object_or_404_def)

lemma get_object_Http404_iff:
  "get_object_or_404 rows lookup = Inl Http404 \<longleftrightarrow> (\<forall>x\<in>set rows. \<not> lookup x)"
proof (cases "filter lookup rows")
  case Nil
  then show ?thesis by (simp add: get_object_or_404_def filter_empty_conv)
next
  case (Cons x xs)
  then have "x \<in> set (filter lookup rows)" by simp
  then have "\<exists>x\<in>set rows. lookup x" by auto
  with Cons show ?thesis by (cases xs) (simp_all add: get_object_or_404_def)
qed

lemma get_object_InrD:
  "get_object_or_404 rows lookup = Inr obj \<Longrightarrow> obj \<in> set rows \<and> lookup obj \<and> filter lookup rows = [obj]"
proof -
  assume a: "get_object_or_404 rows lookup = Inr obj"
  then have f: "filter lookup rows = [obj]"
    by (auto simp: get_object_or_404_def split: list.splits)
  then have "obj \<in> set (filter lookup rows)" by simp
  then have "obj \<in> set rows \<and> lookup obj" by simp
  with f show ?thesis by simp
qed

section \<open>Matching routes\<close>

lemma takeWhile_app: "\<forall>c\<in>set r. P c \<Longrightarrow> (t = [] \<or> \<not> P (hd t)) \<Longrightarrow> takeWhile P (r @ t) = r"
  by (cases t) (auto simp: takeWhile_tail)

lemma first_some_SomeD: "first_some f xs = Some y \<Longrightarrow> \<exists>x\<in>set xs. f x = Some y"
  by (induction xs) (auto split: option.splits)

lemma match_NilD: "match_parts [] s = Some kw \<Longrightarrow> s = [] \<and> kw = []"
  by (auto split: if_splits)

lemma match_LitD:
  assumes "match_parts (Lit l # ps) s = Some kw"
  shows "\<exists>t. s = l @ t \<and> match_parts ps t = Some kw"
proof -
  from assms have a: "take (length l) s = l" and b: "match_parts ps (drop (length l) s) = Some kw"
    by (auto split: if_splits)
  have "s = l @ drop (length l) s" using a by (metis append_take_drop_id)
  with b show ?thesis by blast
qed

lemma match_ParamD:
  assumes "match_parts (Param cv n # ps) s = Some kw"
  shows "\<exists>r t kw'. s = r @ t \<and> regex_ok cv r \<and> match_parts ps t = Some kw'
           \<and> kw = (n, to_python cv r) # kw'"
proof -
  define L where "L = length (takeWhile (regex_class cv) s)"
  define f where "f = (\<lambda>k. case match_parts ps (drop k s) of None \<Rightarrow> None
             | Some kw' \<Rightarrow> Some ((n, to_python cv (take k s)) # kw'))"
  from assms have "first_some f (rev [1..<Suc L]) = Some kw"
    by (simp add: L_def f_def)
  then obtain k where k0: "k \<in> set (rev [1..<Suc L])" and m0: "f k = Some kw"
    by (blast dest: first_some_SomeD)
  from k0 have k: "1 \<le> k \<and> k \<le> length (takeWhile (regex_class cv) s)"
    by (auto simp: L_def)
  from m0 have m: "(case match_parts ps (drop k s) of None \<Rightarrow> None
             | Some kw' \<Rightarrow> Some ((n, to_python cv (take k s)) # kw')) = Some kw"
    by (simp add: f_def)
  from m obtain kw' where kw': "match_parts ps (drop k s) = Some kw'"
    and kw: "kw = (n, to_python cv (take k s)) # kw'"
    by (auto split: option.splits)
  from k have k1: "1 \<le> k" and k2: "k \<le> length (takeWhile (regex_class cv) s)" by auto
  have "take k s = take k (takeWhile (regex_class cv) s)"
    using k2 by (metis append_eq_conv_conj min.absorb2 take_take takeWhile_dropWhile_id length_take
        take_all)
  then have "set (take k s) \<subseteq> set (takeWhile (regex_class cv) s)"
    by (metis set_take_subset)
  then have cls: "list_all (regex_class cv) (take k s)"
    by (auto simp: list_all_iff dest: set_takeWhileD)
  have ne: "take k s \<noteq> []" using k1 k2 by auto
  have "s = take k s @ drop k s" by simp
  with cls ne kw' kw show ?thesis unfolding regex_ok_def by blast
qed

lemma match_Param_greedy:
  assumes "regex_ok cv r" and "t = [] \<or> \<not> regex_class cv (hd t)"
    and "match_parts ps t = Some kw'"
  shows "match_parts (Param cv n # ps) (r @ t) = Some ((n, to_python cv r) # kw')"
proof -
  from assms(1) have ne: "r \<noteq> []" and all: "\<forall>c\<in>set r. regex_class cv c"
    by (auto simp: regex_ok_def list_all_iff)
  have tw: "takeWhile (regex_class cv) (r @ t) = r"
    using all assms(2) by (rule takeWhile_app)
  from ne obtain j where j: "length r = Suc j" by (cases r) auto
  have "rev [1..<Suc (length r)] = length r # rev [1..<length r]"
    using j by simp
  then show ?thesis using tw assms(3) by simp
qed

lemma match_Lit_app: "match_parts ps t = Some kw \<Longrightarrow> match_parts (Lit l # ps) (l @ t) = Some kw"
  by simp

lemma slash_not_class: "\<not> regex_class cv (CHR ''/'')"
  by (cases cv) (simp_all add: is_digit_def is_slug_char_def)

lemma regex_ok_no_slash: "regex_ok cv r \<Longrightarrow> CHR ''/'' \<notin> set r"
  using slash_not_class by (auto simp: regex_ok_def list_all_iff)

lemma seg_split:
  assumes "CHR ''/'' \<notin> set a" and "CHR ''/'' \<notin> set a'"
    and "a @ CHR ''/'' # b = a' @ CHR ''/'' # b'"
  shows "a = a' \<and> b = b'"
proof -
  have "takeWhile (\<lambda>c. c \<noteq> CHR ''/'') (a @ CHR ''/'' # b) = a"
    using assms(1) by (auto simp: takeWhile_tail takeWhile_eq_all_conv)
  moreover have "takeWhile (\<lambda>c. c \<noteq> CHR ''/'') (a' @ CHR ''/'' # b') = a'"
    using assms(2) by (auto simp: takeWhile_tail takeWhile_eq_all_conv)
  ultimately have "a = a'" using assms(3) by simp
  with assms(3) show ?thesis by simp
qed

lemma match_home: "match_parts [] s = Some kw \<Longrightarrow> s = [] \<and> kw = []"
  by (rule match_NilD)

lemma match_list:
  assumes "match_parts [Lit ''articles''] s = Some kw"
  shows "s = ''articles'' \<and> kw = []"
proof -
  from match_LitD [OF assms] obtain t where s: "s = ''articles'' @ t"
    and m: "match_parts [] t = Some kw" by blast
  from match_NilD [OF m] s show ?thesis by simp
qed

lemma match_category:
  assumes "match_parts [Lit ''articles/category/'', Param SlugConverter ''slug'', Lit ''/''] s = Some kw"
  shows "\<exists>sl. regex_ok SlugConverter sl \<and> s = ''articles/category/'' @ sl @ ''/''
            \<and> kw = [(''slug'', PyStr sl)]"
proof -
  from match_LitD [OF assms] obtain t1 where
    s: "s = ''articles/category/'' @ t1" and
    m1: "match_parts [Param SlugConverter ''slug'', Lit ''/''] t1 = Some kw" by blast
  from match_ParamD [OF m1] obtain sl t2 kw2 where
    t1: "t1 = sl @ t2" and ok: "regex_ok SlugConverter sl" and
    m2: "match_parts [Lit ''/''] t2 = Some kw2" and kw: "kw = (''slug'', to_python SlugConverter sl) # kw2"
    by blast
  from match_LitD [OF m2] obtain t3 where t2: "t2 = ''/'' @ t3" and m3: "match_parts [] t3 = Some kw2"
    by blast
  from match_NilD [OF m3] have "t3 = []" "kw2 = []" by simp_all
  have S: "s = ''articles/category/'' @ sl @ ''/''" using s t1 t2 \<open>t3 = []\<close> by simp
  have K: "kw = [(''slug'', PyStr sl)]" using kw \<open>kw2 = []\<close> by simp
  show ?thesis by (rule exI [of _ sl], simp only: ok S K simp_thms)
qed

lemma match_detail:
  assumes "match_parts [Lit ''articles/'', Param IntConverter ''year'', Lit ''/'',
                Param IntConverter ''month'', Lit ''/'', Param IntConverter ''day'', Lit ''/'',
                Param SlugConverter ''slug'', Lit ''/''] s = Some kw"
  shows "\<exists>y m d sl. regex_ok IntConverter y \<and> regex_ok IntConverter m \<and> regex_ok IntConverter d
            \<and> regex_ok SlugConverter sl
            \<and> s = ''articles/'' @ y @ ''/'' @ m @ ''/'' @ d @ ''/'' @ sl @ ''/''
            \<and> kw = [(''year'', PyInt (int_of_digits y)), (''month'', PyInt (int_of_digits m)),
                    (''day'', PyInt (int_of_digits d)), (''slug'', PyStr sl)]"
proof -
  from match_LitD [OF assms] obtain t1 where
    s: "s = ''articles/'' @ t1" and
    m1: "match_parts [Param IntConverter ''year'', Lit ''/'',
                Param IntConverter ''month'', Lit ''/'', Param IntConverter ''day'', Lit ''/'',
                Param SlugConverter ''slug'', Lit ''/''] t1 = Some kw" by blast
  from match_ParamD [OF m1] obtain y t2 kw2 where
    t1: "t1 = y @ t2" and oky: "regex_ok IntConverter y" and
    m2: "match_parts [Lit ''/'',
                Param IntConverter ''month'', Lit ''/'', Param IntConverter ''day'', Lit ''/'',
                Param SlugConverter ''slug'', Lit ''/''] t2 = Some kw2"
    and kw: "kw = (''year'', to_python IntConverter y) # kw2"
    by blast
  from match_LitD [OF m2] obtain t3 where t2: "t2 = ''/'' @ t3" and
    m3: "match_parts [Param IntConverter ''month'', Lit ''/'', Param IntConverter ''day'', Lit ''/'',
                Param SlugConverter ''slug'', Lit ''/''] t3 = Some kw2"
    by blast
  from match_ParamD [OF m3] obtain m t4 kw4 where
    t3: "t3 = m @ t4" and okm: "regex_ok IntConverter m" and
    m4: "match_parts [Lit ''/'', Param IntConverter ''day'', Lit ''/'',
                Param SlugConverter ''slug'', Lit ''/''] t4 = Some kw4"
    and kw2: "kw2 = (''month'', to_python IntConverter m) # kw4"
    by blast
  from match_LitD [OF m4] obtain t5 where t4: "t4 = ''/'' @ t5" and
    m5: "match_parts [Param IntConverter ''day'', Lit ''/'',
                Param SlugConverter ''slug'', Lit ''/''] t5 = Some kw4"
    by blast
  from match_ParamD [OF m5] obtain d t6 kw6 where
    t5: "t5 = d @ t6" and okd: "regex_ok IntConverter d" and
    m6: "match_parts [Lit ''/'', Param SlugConverter ''slug'', Lit ''/''] t6 = Some kw6"
    and kw4: "kw4 = (''day'', to_python IntConverter d) # kw6"
    by blast
  from match_LitD [OF m6] obtain t7 where t6: "t6 = ''/'' @ t7" and
    m7: "match_parts [Param SlugConverter ''slug'', Lit ''/''] t7 = Some kw6"
    by blast
  from match_ParamD [OF m7] obtain sl t8 kw8 where
    t7: "t7 = sl @ t8" and oks: "regex_ok SlugConverter sl" and
    m8: "match_parts [Lit ''/''] t8 = Some kw8"
    and kw6: "kw6 = (''slug'', to_python SlugConverter sl) # kw8"
    by blast
  from match_LitD [OF m8] obtain t9 where t8: "t8 = ''/'' @ t9" and m9: "match_parts [] t9 = Some kw8"
    by blast
  from match_NilD [OF m9] have e: "t9 = []" "kw8 = []" by simp_all
  have S: "s = ''articles/'' @ y @ ''/'' @ m @ ''/'' @ d @ ''/'' @ sl @ ''/''"
    using s t1 t2 t3 t4 t5 t6 t7 t8 e by simp
  have K: "kw = [(''year'', PyInt (int_of_digits y)), (''month'', PyInt (int_of_digits m)),
                    (''day'', PyInt (int_of_digits d)), (''slug'', PyStr sl)]"
    using kw kw2 kw4 kw6 e by simp
  show ?thesis
    by (rule exI [of _ y], rule exI [of _ m], rule exI [of _ d], rule exI [of _ sl],
        simp only: oky okm okd oks S K simp_thms)
qed

lemma resolve_cases:
  assumes "resolve p = Inr rm"
  obtains
    (home) "p = ''/''" "rm = \<lparr>func = HomePageView, kwargs = [], url_name = ''home''\<rparr>"
  | (list) "p = ''/articles''"
      "rm = \<lparr>func = ArticleList, kwargs = [], url_name = ''articles-list''\<rparr>"
  | (category) sl where "regex_ok SlugConverter sl" "p = ''/articles/category/'' @ sl @ ''/''"
      "rm = \<lparr>func = ArticleCategoryList, kwargs = [(''slug'', PyStr sl)],
             url_name = ''articles-category-list''\<rparr>"
  | (detail) y m d sl where "regex_ok IntConverter y" "regex_ok IntConverter m"
      "regex_ok IntConverter d" "regex_ok SlugConverter sl"
      "p = ''/articles/'' @ y @ ''/'' @ m @ ''/'' @ d @ ''/'' @ sl @ ''/''"
      "rm = \<lparr>func = ArticleDetail,
             kwargs = [(''year'', PyInt (int_of_digits y)), (''month'', PyInt (int_of_digits m)),
                       (''day'', PyInt (int_of_digits d)), (''slug'', PyStr sl)],
             url_name = ''news-detail''\<rparr>"
proof -
  from assms obtain rest where p: "p = CHR ''/'' # rest"
    by (cases p) (simp_all add: resolve_def split: if_splits)
  define f where "f = (\<lambda>u::url_pattern. map_option
                               (\<lambda>kw. \<lparr>func = view_class u, kwargs = kw, url_name = name u\<rparr>)
                               (match_parts (route u) rest))"
  have "first_some f urlpatterns = Some rm"
  proof (cases "first_some f urlpatterns")
    case None
    with assms p show ?thesis by (simp add: resolve_def f_def)
  next
    case (Some a)
    with assms p show ?thesis by (simp add: resolve_def f_def)
  qed
  then obtain u where u: "u \<in> set urlpatterns" and fu: "f u = Some rm"
    by (blast dest: first_some_SomeD)
  from fu obtain kw where kw: "match_parts (route u) rest = Some kw"
    and rm: "rm = \<lparr>func = view_class u, kwargs = kw, url_name = name u\<rparr>"
    by (auto simp: f_def)
  from u have "u = \<lparr>route = [], view_class = HomePageView, name = ''home''\<rparr>
    \<or> u = \<lparr>route = [Lit ''articles''], view_class = ArticleList, name = ''articles-list''\<rparr>
    \<or> u = \<lparr>route = [Lit ''articles/category/'', Param SlugConverter ''slug'', Lit ''/''],
       view_class = ArticleCategoryList, name = ''articles-category-list''\<rparr>
    \<or> u = \<lparr>route = [Lit ''articles/'', Param IntConverter ''year'', Lit ''/'',
                Param IntConverter ''month'', Lit ''/'', Param IntConverter ''day'', Lit ''/'',
                Param SlugConverter ''slug'', Lit ''/''],
       view_class = ArticleDetail, name = ''news-detail''\<rparr>"
    by (simp only: urlpatterns_def list.set insert_iff empty_iff simp_thms)
  then show ?thesis
  proof (elim disjE)
    assume 1: "u = \<lparr>route = [], view_class = HomePageView, name = ''home''\<rparr>"
    with kw have k: "match_parts [] rest = Some kw" by simp
    from match_home [OF k] have "rest = []" "kw = []" by simp_all
    with p rm 1 show ?thesis by (intro home) simp_all
  next
    assume 2: "u = \<lparr>route = [Lit ''articles''], view_class = ArticleList, name = ''articles-list''\<rparr>"
    with kw have k: "match_parts [Lit ''articles''] rest = Some kw" by simp
    from match_list [OF k] have "rest = ''articles''" "kw = []" by simp_all
    with p rm 2 show ?thesis by (intro list) simp_all
  next
    assume 3: "u = \<lparr>route = [Lit ''articles/category/'', Param SlugConverter ''slug'', Lit ''/''],
       view_class = ArticleCategoryList, name = ''articles-category-list''\<rparr>"
    with kw have k: "match_parts [Lit ''articles/category/'', Param SlugConverter ''slug'',
                                  Lit ''/''] rest = Some kw" by simp
    from match_category [OF k] obtain sl where sl:
      "regex_ok SlugConverter sl" "rest = ''articles/category/'' @ sl @ ''/''"
      "kw = [(''slug'', PyStr sl)]" by blast
    show ?thesis
    proof (rule category [of sl])
      show "regex_ok SlugConverter sl" by (rule sl(1))
      show "p = ''/articles/category/'' @ sl @ ''/''" using p sl(2) by simp
      show "rm = \<lparr>func = ArticleCategoryList, kwargs = [(''slug'', PyStr sl)],
             url_name = ''articles-category-list''\<rparr>" using rm 3 sl(3) by simp
    qed
  next
    assume 4: "u = \<lparr>route = [Lit ''articles/'', Param IntConverter ''year'', Lit ''/'',
                Param IntConverter ''month'', Lit ''/'', Param IntConverter ''day'', Lit ''/'',
                Param SlugConverter ''slug'', Lit ''/''],
       view_class = ArticleDetail, name = ''news-detail''\<rparr>"
    with kw have k: "match_parts [Lit ''articles/'', Param IntConverter ''year'', Lit ''/'',
                Param IntConverter ''month'', Lit ''/'', Param IntConverter ''day'', Lit ''/'',
                Param SlugConverter ''slug'', Lit ''/''] rest = Some kw" by simp
    from match_detail [OF k] obtain y m d sl where v:
      "regex_ok IntConverter y" "regex_ok IntConverter m" "regex_ok IntConverter d"
      "regex_ok SlugConverter sl"
      "rest = ''articles/'' @ y @ ''/'' @ m @ ''/'' @ d @ ''/'' @ sl @ ''/''"
      "kw = [(''year'', PyInt (int_of_digits y)), (''month'', PyInt (int_of_digits m)),
                    (''day'', PyInt (int_of_digits d)), (''slug'', PyStr sl)]" by blast
    show ?thesis
    proof (rule detail [of y m d sl])
      show "regex_ok IntConverter y" "regex_ok IntConverter m" "regex_ok IntConverter d"
        "regex_ok SlugConverter sl" by (rule v)+
      show "p = ''/articles/'' @ y @ ''/'' @ m @ ''/'' @ d @ ''/'' @ sl @ ''/''"
        using p v(5) by simp
      show "rm = \<lparr>func = ArticleDetail,
             kwargs = [(''year'', PyInt (int_of_digits y)), (''month'', PyInt (int_of_digits m)),
                       (''day'', PyInt (int_of_digits d)), (''slug'', PyStr sl)],
             url_name = ''news-detail''\<rparr>" using rm 4 v(6) by simp
    qed
  qed
qed

lemma resolve_error: "resolve p = Inl e \<Longrightarrow> e = Resolver404"
  unfolding resolve_def by (simp split: list.splits if_splits option.splits)

lemma digit_val_nonneg: "is_digit c \<Longrightarrow> 0 \<le> digit_val c"
  by (auto simp: is_digit_def digit_val_def)

lemma foldl_digits_nonneg:
  "list_all is_digit s \<Longrightarrow> 0 \<le> a \<Longrightarrow> 0 \<le> foldl (\<lambda>a c. 10 * a + digit_val c) a s"
proof (induction s arbitrary: a)
  case Nil
  then show ?case by simp
next
  case (Cons c s)
  from Cons.prems have "0 \<le> 10 * a + digit_val c"
    using digit_val_nonneg [of c] by simp
  with Cons show ?case by simp
qed

lemma int_of_digits_nonneg: "regex_ok IntConverter s \<Longrightarrow> 0 \<le> int_of_digits s"
proof -
  assume "regex_ok IntConverter s"
  then have "list_all is_digit s"
    by (simp add: regex_ok_def list_all_iff)
  then show ?thesis unfolding int_of_digits_def by (rule foldl_digits_nonneg) simp
qed

lemma digit_char_is_digit: "n < 10 \<Longrightarrow> is_digit (digit_char n)"
  unfolding is_digit_def digit_char_def by (rule nth_mem) simp

lemma str_nat_ok: "regex_ok IntConverter (str_nat n)"
proof (induction n rule: str_nat.induct)
  case (1 n)
  show ?case
  proof (cases "n < 10")
    case True
    then show ?thesis
      by (simp add: str_nat.simps [of n] regex_ok_def digit_char_is_digit)
  next
    case False
    with 1 have ih: "regex_ok IntConverter (str_nat (n div 10))" by simp
    have "n mod 10 < 10" by simp
    then have "is_digit (digit_char (n mod 10))" by (rule digit_char_is_digit)
    with ih False show ?thesis
      by (simp add: str_nat.simps [of n] regex_ok_def)
  qed
qed

lemma str_int_ok: "0 \<le> i \<Longrightarrow> regex_ok IntConverter (str_int i)"
  by (simp add: str_int_def str_nat_ok)

lemma str_nat_length: "0 < k \<Longrightarrow> n < 10 ^ k \<Longrightarrow> length (str_nat n) \<le> k"
proof (induction n arbitrary: k rule: str_nat.induct)
  case (1 n)
  show ?case
  proof (cases "n < 10")
    case True
    with 1(2) show ?thesis by (simp add: str_nat.simps [of n] Suc_leI)
  next
    case False
    from 1(2) obtain j where k: "k = Suc j" by (cases k) auto
    have j: "0 < j"
    proof (rule ccontr)
      assume "\<not> 0 < j"
      with k 1(3) False show False by simp
    qed
    from 1(3) k have "n div 10 < 10 ^ j" by (simp add: less_mult_imp_div_less mult.commute)
    from 1(1) [OF False j this] have "length (str_nat (n div 10)) \<le> j" .
    with False k show ?thesis by (simp add: str_nat.simps [of n])
  qed
qed

lemma str_nat_length_ge: "10 ^ k \<le> n \<Longrightarrow> k < length (str_nat n)"
proof (induction n arbitrary: k rule: str_nat.induct)
  case (1 n)
  show ?case
  proof (cases "n < 10")
    case True
    from 1(2) True have "(10::nat) ^ k < 10 ^ 1" by simp
    then have "k < 1" by (rule power_less_imp_less_exp [rotated]) simp
    then show ?thesis by (simp add: str_nat.simps [of n] True)
  next
    case False
    show ?thesis
    proof (cases k)
      case 0
      then show ?thesis by (simp add: str_nat.simps [of n])
    next
      case (Suc j)
      with 1(2) have "10 ^ j \<le> n div 10" by (simp add: less_eq_div_iff_mult_less_eq mult.commute)
      from 1(1) [OF False this] have "j < length (str_nat (n div 10))" .
      with False Suc show ?thesis by (simp add: str_nat.simps [of n])
    qed
  qed
qed

lemma py_str_int:
  assumes "0 \<le> i" and "i < 10 ^ max_str_digits"
  shows "py_str (PyInt i) = Inr (str_int i)"
proof -
  from assms have "nat \<bar>i\<bar> < 10 ^ max_str_digits" by (simp add: nat_less_iff)
  moreover have "0 < max_str_digits" by (simp add: max_str_digits_def)
  ultimately have "length (str_nat (nat \<bar>i\<bar>)) \<le> max_str_digits"
    by (rule str_nat_length [rotated])
  then show ?thesis by simp
qed

lemma py_str_too_long:
  assumes "10 ^ max_str_digits \<le> \<bar>i\<bar>"
  shows "py_str (PyInt i) = Inl ValueError"
proof -
  from assms have "10 ^ max_str_digits \<le> nat \<bar>i\<bar>" by (simp add: le_nat_iff)
  then have "max_str_digits < length (str_nat (nat \<bar>i\<bar>))" by (rule str_nat_length_ge)
  then show ?thesis by simp
qed

lemma match_Lit_slash:
  "match_parts ps t = Some kw \<Longrightarrow> match_parts (Lit ''/'' # ps) (CHR ''/'' # t) = Some kw"
  by simp

lemma match_Param_slash:
  assumes "regex_ok cv r" and "match_parts ps (CHR ''/'' # t) = Some kw'"
  shows "match_parts (Param cv n # ps) (r @ CHR ''/'' # t) = Some ((n, to_python cv r) # kw')"
proof (rule match_Param_greedy [OF assms(1) _ assms(2)])
  show "CHR ''/'' # t = [] \<or> \<not> regex_class cv (hd (CHR ''/'' # t))"
    by (simp add: slash_not_class)
qed

lemma match_category_complete:
  assumes "regex_ok SlugConverter sl"
  shows "match_parts [Lit ''articles/category/'', Param SlugConverter ''slug'', Lit ''/'']
           (''articles/category/'' @ sl @ ''/'') = Some [(''slug'', PyStr sl)]"
proof -
  have m0: "match_parts [] [] = Some []" by simp
  have m1: "match_parts [Lit ''/''] (CHR ''/'' # []) = Some []"
    by (rule match_Lit_slash [OF m0])
  have m2: "match_parts [Param SlugConverter ''slug'', Lit ''/''] (sl @ CHR ''/'' # [])
              = Some [(''slug'', to_python SlugConverter sl)]"
    by (rule match_Param_slash [OF assms m1])
  have m3: "match_parts [Lit ''articles/category/'', Param SlugConverter ''slug'', Lit ''/'']
              (''articles/category/'' @ (sl @ CHR ''/'' # [])) = Some [(''slug'', to_python SlugConverter sl)]"
    by (rule match_Lit_app [OF m2])
  then show ?thesis by simp
qed

lemma match_detail_complete:
  assumes "regex_ok IntConverter y" "regex_ok IntConverter m" "regex_ok IntConverter d"
    "regex_ok SlugConverter sl"
  shows "match_parts [Lit ''articles/'', Param IntConverter ''year'', Lit ''/'',
                Param IntConverter ''month'', Lit ''/'', Param IntConverter ''day'', Lit ''/'',
                Param SlugConverter ''slug'', Lit ''/'']
           (''articles/'' @ y @ ''/'' @ m @ ''/'' @ d @ ''/'' @ sl @ ''/'')
         = Some [(''year'', PyInt (int_of_digits y)), (''month'', PyInt (int_of_digits m)),
                 (''day'', PyInt (int_of_digits d)), (''slug'', PyStr sl)]"
proof -
  have m0: "match_parts [] [] = Some []" by simp
  have m1: "match_parts [Lit ''/''] (CHR ''/'' # []) = Some []"
    by (rule match_Lit_slash [OF m0])
  have m2: "match_parts [Param SlugConverter ''slug'', Lit ''/''] (sl @ CHR ''/'' # [])
              = Some [(''slug'', to_python SlugConverter sl)]"
    by (rule match_Param_slash [OF assms(4) m1])
  note m3 = match_Lit_slash [OF m2]
  note m4 = match_Param_slash [OF assms(3) m3, of "''day''"]
  note m5 = match_Lit_slash [OF m4]
  note m6 = match_Param_slash [OF assms(2) m5, of "''month''"]
  note m7 = match_Lit_slash [OF m6]
  note m8 = match_Param_slash [OF assms(1) m7, of "''year''"]
  note m9 = match_Lit_app [OF m8, of "''articles/''"]
  have e: "''articles/'' @ y @ ''/'' @ m @ ''/'' @ d @ ''/'' @ sl @ ''/''
         = ''articles/'' @ y @ CHR ''/'' # m @ CHR ''/'' # d @ CHR ''/'' # sl @ [CHR ''/'']"
    by simp
  show ?thesis unfolding e using m9 by simp
qed

lemma seg4_eq:
  assumes "CHR ''/'' \<notin> set y" "CHR ''/'' \<notin> set m" "CHR ''/'' \<notin> set d"
    "CHR ''/'' \<notin> set y'" "CHR ''/'' \<notin> set m'" "CHR ''/'' \<notin> set d'"
    and "y @ CHR ''/'' # m @ CHR ''/'' # d @ CHR ''/'' # r
       = y' @ CHR ''/'' # m' @ CHR ''/'' # d' @ CHR ''/'' # r'"
  shows "y = y' \<and> m = m' \<and> d = d' \<and> r = r'"
proof -
  from seg_split [OF assms(1) assms(4) assms(7)]
  have 1: "y = y'" and e1: "m @ CHR ''/'' # d @ CHR ''/'' # r = m' @ CHR ''/'' # d' @ CHR ''/'' # r'"
    by simp_all
  from seg_split [OF assms(2) assms(5) e1]
  have 2: "m = m'" and e2: "d @ CHR ''/'' # r = d' @ CHR ''/'' # r'" by simp_all
  from seg_split [OF assms(3) assms(6) e2] 1 2 show ?thesis by simp
qed

section \<open>The detail lookup\<close>

text \<open>
  C1: the news-detail operation, given year, month, day and slug, answers "not found"
  (\<open>Http404\<close>) exactly when no article has that slug, or articles with that slug exist
  but none of them is published on that calendar day; whatever it returns is an article of
  the store with that slug and that day; and when exactly one article has that slug and
  that day (the lookup-time assumption of the data model), it returns that article.
\<close>

theorem news_detail_lookup:
  "(news_detail st y m d slug = Inl Http404 \<longleftrightarrow>
      ((\<forall>a\<in>set (articles st). a_slug a \<noteq> slug)
       \<or> ((\<exists>a\<in>set (articles st). a_slug a = slug)
          \<and> (\<forall>a\<in>set (articles st). a_slug a = slug \<longrightarrow> \<not> on_day y m d a))))
   \<and> (\<forall>r. news_detail st y m d slug = Inr r \<longrightarrow>
         (\<exists>a\<in>set (articles st). a_slug a = slug \<and> on_day y m d a
            \<and> r = \<lparr>status_code = 200, template_name = ''article_detail.html'',
                    context_data = [(''item'', Item a)]\<rparr>))
   \<and> (\<forall>a. filter (\<lambda>b. a_slug b = slug \<and> on_day y m d b) (articles st) = [a] \<longrightarrow>
         news_detail st y m d slug =
           Inr \<lparr>status_code = 200, template_name = ''article_detail.html'',
                context_data = [(''item'', Item a)]\<rparr>)"
proof (intro conjI allI impI)
  have "news_detail st y m d slug = Inl Http404 \<longleftrightarrow>
          get_object_or_404 (articles st) (\<lambda>a. a_slug a = slug \<and> on_day y m d a) = Inl Http404"
    by (simp add: news_detail_def split: sum.splits)
  also have "\<dots> \<longleftrightarrow> (\<forall>a\<in>set (articles st). \<not> (a_slug a = slug \<and> on_day y m d a))"
    by (rule get_object_Http404_iff)
  also have "\<dots> \<longleftrightarrow> ((\<forall>a\<in>set (articles st). a_slug a \<noteq> slug)
       \<or> ((\<exists>a\<in>set (articles st). a_slug a = slug)
          \<and> (\<forall>a\<in>set (articles st). a_slug a = slug \<longrightarrow> \<not> on_day y m d a)))"
    by blast
  finally show "news_detail st y m d slug = Inl Http404 \<longleftrightarrow>
      ((\<forall>a\<in>set (articles st). a_slug a \<noteq> slug)
       \<or> ((\<exists>a\<in>set (articles st). a_slug a = slug)
          \<and> (\<forall>a\<in>set (articles st). a_slug a = slug \<longrightarrow> \<not> on_day y m d a)))" .
next
  fix r assume r: "news_detail st y m d slug = Inr r"
  then obtain a where g: "get_object_or_404 (articles st) (\<lambda>a. a_slug a = slug \<and> on_day y m d a) = Inr a"
    and rr: "r = \<lparr>status_code = 200, template_name = ''article_detail.html'',
                    context_data = [(''item'', Item a)]\<rparr>"
    by (auto simp: news_detail_def split: sum.splits)
  from get_object_InrD [OF g] rr
  show "\<exists>a\<in>set (articles st). a_slug a = slug \<and> on_day y m d a
            \<and> r = \<lparr>status_code = 200, template_name = ''article_detail.html'',
                    context_data = [(''item'', Item a)]\<rparr>" by blast
next
  fix a assume "filter (\<lambda>b. a_slug b = slug \<and> on_day y m d b) (articles st) = [a]"
  from get_object_one [OF this]
  show "news_detail st y m d slug =
           Inr \<lparr>status_code = 200, template_name = ''article_detail.html'',
                context_data = [(''item'', Item a)]\<rparr>"
    by (simp add: news_detail_def)
qed

lemma test_filter_day:
  "filter (\<lambda>b. a_slug b = ''test-article'' \<and> on_day 2024 1 15 b) (articles test_store)
     = [test_article]"
  by (simp add: test_store_def test_article_def other_article_def on_day_def)

theorem news_detail_lookup_witness:
  "news_detail test_store 2024 1 15 ''test-article'' =
     Inr \<lparr>status_code = 200, template_name = ''article_detail.html'',
          context_data = [(''item'', Item test_article)]\<rparr>
   \<and> \<not> (\<exists>a\<in>set (articles test_store). a_slug a = ''nonexistent-article'')
   \<and> news_detail test_store 2024 1 15 ''nonexistent-article'' = Inl Http404"
proof -
  have n: "\<not> (\<exists>a\<in>set (articles test_store). a_slug a = ''nonexistent-article'')"
    by (simp add: test_store_def test_article_def other_article_def)
  then have h: "\<forall>a\<in>set (articles test_store). a_slug a \<noteq> ''nonexistent-article''"
    by (simp only: bex_simps)
  have c1: "news_detail test_store 2024 1 15 ''test-article'' =
     Inr \<lparr>status_code = 200, template_name = ''article_detail.html'',
          context_data = [(''item'', Item test_article)]\<rparr>"
    by (rule news_detail_lookup [THEN conjunct2, THEN conjunct2, THEN spec, THEN mp,
          OF test_filter_day])
  have c2: "news_detail test_store 2024 1 15 ''nonexistent-article'' = Inl Http404"
    by (rule news_detail_lookup [THEN conjunct1, THEN iffD2, OF disjI1, OF h])
  show ?thesis by (rule conjI [OF c1 conjI [OF n c2]])
qed

section \<open>The listing by category\<close>

text \<open>
  C3: with category slugs unique, for every category \<open>c\<close> of the store the listing by
  category applied to \<open>c\<close>'s slug returns exactly the articles whose category reference is
  \<open>c\<close> (all \<open>N\<close> of them, in store order) and no article of another category.
\<close>

theorem category_list_isolation:
  assumes "distinct (map c_slug (categories st))" and "c \<in> set (categories st)"
  shows "items_of (articles_category_list st (c_slug c)) =
           filter (\<lambda>a. category_id a = Some (c_pk c)) (articles st)
       \<and> (\<forall>a\<in>set (items_of (articles_category_list st (c_slug c))). category_id a = Some (c_pk c))
       \<and> (length (filter (\<lambda>a. category_id a = Some (c_pk c)) (articles st)) = N \<longrightarrow>
            length (items_of (articles_category_list st (c_slug c))) = N)"
proof -
  have inj: "inj_on c_slug (set (categories st))"
    using assms(1) by (simp add: distinct_map)
  have eq: "category_slug_is st (c_slug c) a \<longleftrightarrow> category_id a = Some (c_pk c)" for a
  proof (cases "category_id a")
    case None
    then show ?thesis by (simp add: category_slug_is_def)
  next
    case (Some cid)
    show ?thesis
    proof
      assume "category_slug_is st (c_slug c) a"
      with Some obtain c' where c': "c' \<in> set (categories st)" "c_pk c' = cid" "c_slug c' = c_slug c"
        by (auto simp: category_slug_is_def list_ex_iff)
      from inj c'(1,3) assms(2) have "c' = c" by (auto dest: inj_onD)
      with c'(2) Some show "category_id a = Some (c_pk c)" by simp
    next
      assume "category_id a = Some (c_pk c)"
      with assms(2) show "category_slug_is st (c_slug c) a"
        by (auto simp: category_slug_is_def list_ex_iff)
    qed
  qed
  have items: "items_of (articles_category_list st (c_slug c)) =
           filter (\<lambda>a. category_id a = Some (c_pk c)) (articles st)"
    by (simp add: articles_category_list_def items_of_def eq cong: filter_cong)
  then show ?thesis by simp
qed

theorem category_list_isolation_witness:
  "distinct (map c_slug (categories test_store)) \<and> test_category \<in> set (categories test_store)
   \<and> items_of (articles_category_list test_store (c_slug test_category)) =
       filter (\<lambda>a. category_id a = Some (c_pk test_category)) (articles test_store)
   \<and> filter (\<lambda>a. category_id a = Some (c_pk test_category)) (articles test_store)
       = [test_article]"
proof -
  have d: "distinct (map c_slug (categories test_store))"
    by (simp add: test_store_def test_category_def other_category_def)
  have m: "test_category \<in> set (categories test_store)"
    by (simp add: test_store_def)
  have c: "items_of (articles_category_list test_store (c_slug test_category)) =
       filter (\<lambda>a. category_id a = Some (c_pk test_category)) (articles test_store)"
    by (rule category_list_isolation [OF d m, THEN conjunct1])
  have e: "filter (\<lambda>a. category_id a = Some (c_pk test_category)) (articles test_store)
       = [test_article]"
    by (simp add: test_store_def test_category_def test_article_def other_article_def)
  from d m c e show ?thesis by (intro conjI)
qed

text \<open>
  C4: the listing by category always answers with status 200, and when no category has
  the slug, or no article refers to a category with that slug, its result is empty.
\<close>

theorem category_list_empty_is_success:
  "status_code (articles_category_list st slug) = 200 \<and>
   ((\<not> (\<exists>c\<in>set (categories st). c_slug c = slug)
     \<or> (\<forall>c\<in>set (categories st). c_slug c = slug \<longrightarrow>
            (\<forall>a\<in>set (articles st). category_id a \<noteq> Some (c_pk c))))
    \<longrightarrow> items_of (articles_category_list st slug) = [])"
proof (intro conjI impI)
  show "status_code (articles_category_list st slug) = 200"
    by (simp add: articles_category_list_def)
next
  assume "\<not> (\<exists>c\<in>set (categories st). c_slug c = slug)
     \<or> (\<forall>c\<in>set (categories st). c_slug c = slug \<longrightarrow>
            (\<forall>a\<in>set (articles st). category_id a \<noteq> Some (c_pk c)))"
  then have h: "\<forall>c\<in>set (categories st). c_slug c = slug \<longrightarrow>
            (\<forall>a\<in>set (articles st). category_id a \<noteq> Some (c_pk c))" by blast
  have "\<forall>a\<in>set (articles st). \<not> category_slug_is st slug a"
  proof
    fix a assume a: "a \<in> set (articles st)"
    show "\<not> category_slug_is st slug a"
    proof (cases "category_id a")
      case None
      then show ?thesis by (simp add: category_slug_is_def)
    next
      case (Some cid)
      with h a show ?thesis by (auto simp: category_slug_is_def list_ex_iff)
    qed
  qed
  then have "filter (category_slug_is st slug) (articles st) = []"
    by (simp add: filter_empty_conv)
  then show "items_of (articles_category_list st slug) = []"
    by (simp add: articles_category_list_def items_of_def)
qed

theorem category_list_empty_is_success_witness:
  "\<not> (\<exists>c\<in>set (categories test_store). c_slug c = ''nonexistent-category'')
   \<and> status_code (articles_category_list test_store ''nonexistent-category'') = 200
   \<and> items_of (articles_category_list test_store ''nonexistent-category'') = []"
proof -
  have h: "\<not> (\<exists>c\<in>set (categories test_store). c_slug c = ''nonexistent-category'')"
    by (simp add: test_store_def test_category_def other_category_def)
  have s: "status_code (articles_category_list test_store ''nonexistent-category'') = 200"
    by (rule category_list_empty_is_success [THEN conjunct1])
  have e: "items_of (articles_category_list test_store ''nonexistent-category'') = []"
    by (rule category_list_empty_is_success [THEN conjunct2, THEN mp, OF disjI1, OF h])
  from h s e show ?thesis by (intro conjI)
qed

section \<open>Context variable names\<close>

text \<open>
  C7: the two listing operations hand the template exactly one context variable, named
  \<open>items\<close>, holding a sequence of articles; a successful news-detail hands it exactly one,
  named \<open>item\<close>, holding a single article.
\<close>

theorem context_variable_names:
  "context_data (articles_list st) = [(''items'', Items (articles st))]
   \<and> context_data (articles_category_list st slug) =
       [(''items'', Items (filter (category_slug_is st slug) (articles st)))]
   \<and> (\<forall>r. news_detail st y m d slug = Inr r \<longrightarrow>
         status_code r = 200 \<and> (\<exists>a. context_data r = [(''item'', Item a)]))"
  by (auto simp: articles_list_def articles_category_list_def news_detail_def split: sum.splits)

lemma other_filter_day:
  "filter (\<lambda>b. a_slug b = ''other-article'' \<and> on_day 2024 2 3 b) (articles test_store)
     = [other_article]"
  by (simp add: test_store_def test_article_def other_article_def on_day_def)

theorem context_variable_names_witness:
  "news_detail test_store 2024 2 3 ''other-article'' =
     Inr \<lparr>status_code = 200, template_name = ''article_detail.html'',
          context_data = [(''item'', Item other_article)]\<rparr>
   \<and> (\<exists>a. context_data \<lparr>status_code = 200, template_name = ''article_detail.html'',
          context_data = [(''item'', Item other_article)]\<rparr> = [(''item'', Item a)])"
proof -
  have r: "news_detail test_store 2024 2 3 ''other-article'' =
     Inr \<lparr>status_code = 200, template_name = ''article_detail.html'',
          context_data = [(''item'', Item other_article)]\<rparr>"
    by (simp add: news_detail_def get_object_one [OF other_filter_day])
  have c: "\<exists>a. context_data \<lparr>status_code = 200, template_name = ''article_detail.html'',
          context_data = [(''item'', Item other_article)]\<rparr> = [(''item'', Item a)]"
    by (rule context_variable_names [THEN conjunct2, THEN conjunct2, THEN spec, THEN mp,
          OF r, THEN conjunct2])
  from r c show ?thesis by (intro conjI)
qed


section \<open>Deleting one image\<close>

text \<open>
  C8: for every primary key \<open>pk\<close>, \<open>delete_file\<close> removes the image with that primary key
  when exactly one image has it, and raises \<open>Http404\<close>, leaving the store as it was, when
  no image has it.
\<close>

theorem delete_file_by_pk:
  "(length (filter (\<lambda>i. i_pk i = pk) (images st)) = 1 \<longrightarrow>
      delete_file pk st = (Inr (), st\<lparr>images := filter (\<lambda>i. i_pk i \<noteq> pk) (images st)\<rparr>))
   \<and> ((\<forall>i\<in>set (images st). i_pk i \<noteq> pk) \<longrightarrow> delete_file pk st = (Inl Http404, st))"
proof (intro conjI impI)
  assume "length (filter (\<lambda>i. i_pk i = pk) (images st)) = 1"
  then obtain obj where f: "filter (\<lambda>i. i_pk i = pk) (images st) = [obj]"
    by (cases "filter (\<lambda>i. i_pk i = pk) (images st)") auto
  then have "obj \<in> set (filter (\<lambda>i. i_pk i = pk) (images st))" by simp
  then have pk: "i_pk obj = pk" by simp
  from get_object_one [OF f] pk
  show "delete_file pk st = (Inr (), st\<lparr>images := filter (\<lambda>i. i_pk i \<noteq> pk) (images st)\<rparr>)"
    by (simp add: delete_file_def delete_obj_def)
next
  assume "\<forall>i\<in>set (images st). i_pk i \<noteq> pk"
  then have "filter (\<lambda>i. i_pk i = pk) (images st) = []"
    by (simp add: filter_empty_conv)
  from get_object_none [OF this]
  show "delete_file pk st = (Inl Http404, st)"
    by (simp add: delete_file_def)
qed

theorem delete_file_by_pk_witness:
  "length (filter (\<lambda>i. i_pk i = 2) (images test_store)) = 1
   \<and> delete_file 2 test_store =
       (Inr (), test_store\<lparr>images := filter (\<lambda>i. i_pk i \<noteq> 2) (images test_store)\<rparr>)
   \<and> \<not> (\<exists>i\<in>set (images test_store). i_pk i = 7)
   \<and> delete_file 7 test_store = (Inl Http404, test_store)"
proof -
  have h1: "length (filter (\<lambda>i. i_pk i = 2) (images test_store)) = 1"
    by (simp add: test_store_def cover_image_def inline_image_def)
  have n2: "\<not> (\<exists>i\<in>set (images test_store). i_pk i = 7)"
    by (simp add: test_store_def cover_image_def inline_image_def)
  then have h2: "\<forall>i\<in>set (images test_store). i_pk i \<noteq> 7"
    by (simp only: bex_simps)
  from delete_file_by_pk [of 2 test_store] h1
  have c1: "delete_file 2 test_store =
       (Inr (), test_store\<lparr>images := filter (\<lambda>i. i_pk i \<noteq> 2) (images test_store)\<rparr>)"
    by (rule_tac mp [OF conjunct1])
  from delete_file_by_pk [of 7 test_store] h2
  have c2: "delete_file 7 test_store = (Inl Http404, test_store)"
    by (rule_tac mp [OF conjunct2])
  show ?thesis by (rule conjI [OF h1 conjI [OF c1 conjI [OF n2 c2]]])
qed

section \<open>Reverse construction\<close>

lemma find_home: "find (\<lambda>p. name p = ''home'') urlpatterns
    = Some \<lparr>route = [], view_class = HomePageView, name = ''home''\<rparr>"
  by (simp add: urlpatterns_def)

lemma find_list: "find (\<lambda>p. name p = ''articles-list'') urlpatterns
    = Some \<lparr>route = [Lit ''articles''], view_class = ArticleList, name = ''articles-list''\<rparr>"
  by (simp add: urlpatterns_def)

lemma find_category: "find (\<lambda>p. name p = ''articles-category-list'') urlpatterns
    = Some \<lparr>route = [Lit ''articles/category/'', Param SlugConverter ''slug'', Lit ''/''],
       view_class = ArticleCategoryList, name = ''articles-category-list''\<rparr>"
  by (simp add: urlpatterns_def)

lemma find_detail: "find (\<lambda>p. name p = ''news-detail'') urlpatterns
    = Some \<lparr>route = [Lit ''articles/'', Param IntConverter ''year'', Lit ''/'',
                Param IntConverter ''month'', Lit ''/'', Param IntConverter ''day'', Lit ''/'',
                Param SlugConverter ''slug'', Lit ''/''],
       view_class = ArticleDetail, name = ''news-detail''\<rparr>"
  by (simp add: urlpatterns_def)

lemma reverse_found:
  assumes "find (\<lambda>p. name p = v) urlpatterns = Some \<lparr>route = R, view_class = V, name = N\<rparr>"
    and "set (map fst kw) = set (param_names R)"
    and "build R kw = Inr t"
    and "match_parts R t = Some x"
  shows "reverse v kw = Inr (CHR ''/'' # t)"
  using assms by (simp add: reverse_def)

lemma reverse_build_error:
  assumes "find (\<lambda>p. name p = v) urlpatterns = Some \<lparr>route = R, view_class = V, name = N\<rparr>"
    and "set (map fst kw) = set (param_names R)"
    and "build R kw = Inl e"
  shows "reverse v kw = Inl e"
  using assms by (simp add: reverse_def)

lemma reverse_home: "reverse ''home'' [] = Inr ''/''"
proof -
  have k: "set (map fst ([] :: kwargs)) = set (param_names [])" by simp
  have b: "build [] ([] :: kwargs) = Inr []" by simp
  have m: "match_parts [] [] = Some []" by simp
  from reverse_found [OF find_home k b m] show ?thesis by simp
qed

lemma reverse_list: "reverse ''articles-list'' [] = Inr ''/articles''"
proof -
  have k: "set (map fst ([] :: kwargs)) = set (param_names [Lit ''articles''])" by simp
  have b: "build [Lit ''articles''] ([] :: kwargs) = Inr ''articles''" by simp
  have m0: "match_parts [] [] = Some []" by simp
  have m: "match_parts [Lit ''articles''] ''articles'' = Some []"
    using match_Lit_app [OF m0, of "''articles''"] by simp
  from reverse_found [OF find_list k b m] show ?thesis by simp
qed

lemma reverse_category:
  assumes "regex_ok SlugConverter s"
  shows "reverse ''articles-category-list'' [(''slug'', PyStr s)]
           = Inr (''/articles/category/'' @ s @ ''/'')"
proof -
  let ?r = "[Lit ''articles/category/'', Param SlugConverter ''slug'', Lit ''/'']"
  let ?kw = "[(''slug'', PyStr s)]"
  have b: "build ?r ?kw = Inr (''articles/category/'' @ s @ ''/'')"
    by (simp add: to_url_def)
  have k: "set (map fst ?kw) = set (param_names ?r)" by simp
  have m: "match_parts ?r (''articles/category/'' @ s @ ''/'') = Some [(''slug'', PyStr s)]"
    by (rule match_category_complete [OF assms])
  from reverse_found [OF find_category k b m] show ?thesis by simp
qed

lemma reverse_detail:
  assumes "0 \<le> y" "y < 10 ^ max_str_digits" "0 \<le> m" "m < 10 ^ max_str_digits"
    and "0 \<le> d" "d < 10 ^ max_str_digits" "regex_ok SlugConverter s"
  shows "reverse ''news-detail''
           [(''year'', PyInt y), (''month'', PyInt m), (''day'', PyInt d), (''slug'', PyStr s)]
         = Inr (''/articles/'' @ str_int y @ ''/'' @ str_int m @ ''/'' @ str_int d @ ''/''
                  @ s @ ''/'')"
proof -
  let ?r = "[Lit ''articles/'', Param IntConverter ''year'', Lit ''/'',
                Param IntConverter ''month'', Lit ''/'', Param IntConverter ''day'', Lit ''/'',
                Param SlugConverter ''slug'', Lit ''/'']"
  let ?kw = "[(''year'', PyInt y), (''month'', PyInt m), (''day'', PyInt d), (''slug'', PyStr s)]"
  let ?t = "''articles/'' @ str_int y @ ''/'' @ str_int m @ ''/'' @ str_int d @ ''/'' @ s @ ''/''"
  have py: "py_str (PyInt y) = Inr (str_int y)" "py_str (PyInt m) = Inr (str_int m)"
    "py_str (PyInt d) = Inr (str_int d)"
    using assms by (simp_all only: py_str_int)
  have b: "build ?r ?kw = Inr ?t"
    by (simp del: py_str.simps add: to_url_def py py_str.simps(2))
  have k: "set (map fst ?kw) = set (param_names ?r)" by simp
  have mt: "match_parts ?r ?t
      = Some [(''year'', PyInt (int_of_digits (str_int y))),
              (''month'', PyInt (int_of_digits (str_int m))),
              (''day'', PyInt (int_of_digits (str_int d))), (''slug'', PyStr s)]"
    by (rule match_detail_complete [OF str_int_ok [OF assms(1)] str_int_ok [OF assms(3)]
        str_int_ok [OF assms(5)] assms(7)])
  from reverse_found [OF find_detail k b mt] show ?thesis by simp
qed

text \<open>A year too long for \<open>str\<close> makes \<open>reverse\<close> raise \<open>ValueError\<close>.\<close>

lemma reverse_detail_too_long:
  assumes "10 ^ max_str_digits \<le> y"
  shows "reverse ''news-detail''
           [(''year'', PyInt y), (''month'', PyInt m), (''day'', PyInt d), (''slug'', PyStr s)]
         = Inl ValueError"
proof -
  let ?r = "[Lit ''articles/'', Param IntConverter ''year'', Lit ''/'',
                Param IntConverter ''month'', Lit ''/'', Param IntConverter ''day'', Lit ''/'',
                Param SlugConverter ''slug'', Lit ''/'']"
  let ?kw = "[(''year'', PyInt y), (''month'', PyInt m), (''day'', PyInt d), (''slug'', PyStr s)]"
  from assms have "10 ^ max_str_digits \<le> \<bar>y\<bar>" by simp
  then have py: "py_str (PyInt y) = Inl ValueError" by (rule py_str_too_long)
  have b: "build ?r ?kw = Inl ValueError"
    by (simp del: py_str.simps add: to_url_def py)
  have k: "set (map fst ?kw) = set (param_names ?r)" by simp
  from reverse_build_error [OF find_detail k b] show ?thesis .
qed

text \<open>
  C2: reverse construction gives \<open>/\<close> for \<open>home\<close>, \<open>/articles\<close> (no trailing slash) for
  \<open>articles-list\<close>, \<open>/articles/category/\<close> + slug + \<open>/\<close> for \<open>articles-category-list\<close>
  with any slug of the slug alphabet, and \<open>/articles/\<close> + year + \<open>/\<close> + month + \<open>/\<close> + day +
  \<open>/\<close> + slug + \<open>/\<close> for \<open>news-detail\<close> with any such slug and any non-negative integers
  that \<open>str\<close> can print, that is, of at most 4300 decimal digits (written in decimal by
  \<open>str\<close>).
\<close>

theorem reverse_paths:
  "reverse ''home'' [] = Inr ''/''
   \<and> reverse ''articles-list'' [] = Inr ''/articles''
   \<and> (regex_ok SlugConverter s \<longrightarrow>
        reverse ''articles-category-list'' [(''slug'', PyStr s)]
          = Inr (''/articles/category/'' @ s @ ''/''))
   \<and> (0 \<le> y \<and> y < 10 ^ max_str_digits \<and> 0 \<le> m \<and> m < 10 ^ max_str_digits
       \<and> 0 \<le> d \<and> d < 10 ^ max_str_digits \<and> regex_ok SlugConverter s \<longrightarrow>
        reverse ''news-detail''
           [(''year'', PyInt y), (''month'', PyInt m), (''day'', PyInt d), (''slug'', PyStr s)]
         = Inr (''/articles/'' @ str_int y @ ''/'' @ str_int m @ ''/'' @ str_int d @ ''/''
                  @ s @ ''/''))"
proof (intro conjI impI)
  show "reverse ''home'' [] = Inr ''/''" by (rule reverse_home)
  show "reverse ''articles-list'' [] = Inr ''/articles''" by (rule reverse_list)
  show "reverse ''articles-category-list'' [(''slug'', PyStr s)]
          = Inr (''/articles/category/'' @ s @ ''/'')" if "regex_ok SlugConverter s"
    using that by (rule reverse_category)
  show "reverse ''news-detail''
           [(''year'', PyInt y), (''month'', PyInt m), (''day'', PyInt d), (''slug'', PyStr s)]
         = Inr (''/articles/'' @ str_int y @ ''/'' @ str_int m @ ''/'' @ str_int d @ ''/''
                  @ s @ ''/'')"
    if "0 \<le> y \<and> y < 10 ^ max_str_digits \<and> 0 \<le> m \<and> m < 10 ^ max_str_digits
       \<and> 0 \<le> d \<and> d < 10 ^ max_str_digits \<and> regex_ok SlugConverter s"
    using that by (intro reverse_detail) (simp_all only:)
qed

lemma str_int_examples: "str_int 2024 = ''2024''" "str_int 1 = ''1''" "str_int 15 = ''15''"
  by (simp_all add: str_int_def str_nat.simps digit_char_def)

lemma small_int_printable:
  assumes "i < 10 ^ 4"
  shows "(i::int) < 10 ^ max_str_digits"
proof -
  have "(10::int) ^ 4 \<le> 10 ^ max_str_digits"
    unfolding max_str_digits_def by (rule power_increasing) simp_all
  with assms show ?thesis by (rule less_le_trans)
qed

theorem reverse_paths_witness:
  "regex_ok SlugConverter ''test-slug''
   \<and> reverse ''articles-category-list'' [(''slug'', PyStr ''test-slug'')]
       = Inr ''/articles/category/test-slug/''
   \<and> (0 \<le> (2024::int) \<and> (2024::int) < 10 ^ max_str_digits
       \<and> 0 \<le> (1::int) \<and> (1::int) < 10 ^ max_str_digits
       \<and> 0 \<le> (15::int) \<and> (15::int) < 10 ^ max_str_digits
       \<and> regex_ok SlugConverter ''test-article'')
   \<and> reverse ''news-detail''
         [(''year'', PyInt 2024), (''month'', PyInt 1), (''day'', PyInt 15),
          (''slug'', PyStr ''test-article'')]
       = Inr ''/articles/2024/1/15/test-article/''"
proof -
  have h1: "regex_ok SlugConverter ''test-slug''"
    by (simp add: regex_ok_def is_slug_char_def)
  have b: "(2024::int) < 10 ^ max_str_digits" "(1::int) < 10 ^ max_str_digits"
    "(15::int) < 10 ^ max_str_digits"
    by (rule small_int_printable, simp)+
  have s: "regex_ok SlugConverter ''test-article''"
    by (simp add: regex_ok_def is_slug_char_def)
  have h2: "0 \<le> (2024::int) \<and> (2024::int) < 10 ^ max_str_digits
       \<and> 0 \<le> (1::int) \<and> (1::int) < 10 ^ max_str_digits
       \<and> 0 \<le> (15::int) \<and> (15::int) < 10 ^ max_str_digits
       \<and> regex_ok SlugConverter ''test-article''"
    using b s by simp
  have c1: "reverse ''articles-category-list'' [(''slug'', PyStr ''test-slug'')]
       = Inr ''/articles/category/test-slug/''"
    using reverse_paths [THEN conjunct2, THEN conjunct2, THEN conjunct1, THEN mp, OF h1]
    by simp
  have c2: "reverse ''news-detail''
         [(''year'', PyInt 2024), (''month'', PyInt 1), (''day'', PyInt 15),
          (''slug'', PyStr ''test-article'')]
       = Inr ''/articles/2024/1/15/test-article/''"
    using reverse_paths [THEN conjunct2, THEN conjunct2, THEN conjunct2, THEN mp, OF h2]
    by (simp add: str_int_examples)
  show ?thesis by (rule conjI [OF h1 conjI [OF c1 conjI [OF h2 c2]]])
qed

section \<open>Resolution: which paths match\<close>

lemma resolve_not_found_iff:
  "resolve p = Inl Resolver404 \<longleftrightarrow> (\<forall>rm. resolve p \<noteq> Inr rm)"
proof (cases "resolve p")
  case (Inl e)
  then show ?thesis using resolve_error [of p e] by simp
next
  case (Inr rm)
  then show ?thesis by simp
qed

lemma category_literal_no_slash: "CHR ''/'' \<notin> set ''category''"
  by simp

lemma not_digits_category: "\<not> regex_ok IntConverter (''category'' @ t)"
  by (simp add: regex_ok_def is_digit_def)

text \<open>A path of the news-detail shape, with slash-free date segments, resolves only as news-detail.\<close>

lemma resolve_detail_shape:
  assumes ns: "CHR ''/'' \<notin> set y" "CHR ''/'' \<notin> set m" "CHR ''/'' \<notin> set d"
    and r: "resolve (''/articles/'' @ y @ ''/'' @ m @ ''/'' @ d @ ''/'' @ s @ ''/'') = Inr rm"
  shows "regex_ok IntConverter y \<and> regex_ok IntConverter m \<and> regex_ok IntConverter d
         \<and> regex_ok SlugConverter s
         \<and> rm = \<lparr>func = ArticleDetail,
             kwargs = [(''year'', PyInt (int_of_digits y)), (''month'', PyInt (int_of_digits m)),
                       (''day'', PyInt (int_of_digits d)), (''slug'', PyStr s)],
             url_name = ''news-detail''\<rparr>"
  using r
proof (cases rule: resolve_cases)
  case home
  then show ?thesis by simp
next
  case list
  then show ?thesis by simp
next
  case (category sl)
  from category(2) have e: "y @ CHR ''/'' # m @ CHR ''/'' # d @ CHR ''/'' # s @ ''/''
      = ''category'' @ CHR ''/'' # sl @ ''/''" by simp
  from seg_split [OF ns(1) category_literal_no_slash e]
  have e2: "m @ CHR ''/'' # d @ CHR ''/'' # s @ ''/'' = sl @ CHR ''/'' # []" by simp
  from seg_split [OF ns(2) regex_ok_no_slash [OF category(1)] e2]
  have "d @ CHR ''/'' # s @ ''/'' = []" by simp
  then show ?thesis by simp
next
  case (detail y' m' d' sl)
  from detail(5) have e: "y @ CHR ''/'' # m @ CHR ''/'' # d @ CHR ''/'' # (s @ ''/'')
      = y' @ CHR ''/'' # m' @ CHR ''/'' # d' @ CHR ''/'' # (sl @ ''/'')" by simp
  from seg4_eq [OF ns regex_ok_no_slash [OF detail(1)] regex_ok_no_slash [OF detail(2)]
      regex_ok_no_slash [OF detail(3)] e]
  have "y = y'" "m = m'" "d = d'" "s = sl" by simp_all
  with detail show ?thesis by simp
qed

lemma resolve_category_shape:
  assumes r: "resolve (''/articles/category/'' @ s @ ''/'') = Inr rm"
  shows "regex_ok SlugConverter s
         \<and> rm = \<lparr>func = ArticleCategoryList, kwargs = [(''slug'', PyStr s)],
                  url_name = ''articles-category-list''\<rparr>"
  using r
proof (cases rule: resolve_cases)
  case home
  then show ?thesis by simp
next
  case list
  then show ?thesis by simp
next
  case (category sl)
  from category(2) have "s = sl" by simp
  with category show ?thesis by simp
next
  case (detail y m d sl)
  from detail(5) have e: "''category'' @ CHR ''/'' # (s @ ''/'')
      = y @ CHR ''/'' # (m @ ''/'' @ d @ ''/'' @ sl @ ''/'')" by simp
  from seg_split [OF category_literal_no_slash regex_ok_no_slash [OF detail(1)] e]
  have "y = ''category''" by simp
  with detail(1) not_digits_category [of "[]"] show ?thesis by simp
qed

lemma resolve_category_no_trailing_slash:
  assumes ns: "CHR ''/'' \<notin> set s"
  shows "resolve (''/articles/category/'' @ s) = Inl Resolver404"
  unfolding resolve_not_found_iff
proof (intro allI notI)
  fix rm assume "resolve (''/articles/category/'' @ s) = Inr rm"
  then show False
  proof (cases rule: resolve_cases)
    case home
    then show ?thesis by simp
  next
    case list
    then show ?thesis by simp
  next
    case (category sl)
    from category(2) have "s = sl @ ''/''" by simp
    with ns show ?thesis by simp
  next
    case (detail y m d sl)
    from detail(5) have e: "''category'' @ CHR ''/'' # s
        = y @ CHR ''/'' # (m @ ''/'' @ d @ ''/'' @ sl @ ''/'')" by simp
    from seg_split [OF category_literal_no_slash regex_ok_no_slash [OF detail(1)] e]
    have "y = ''category''" by simp
    with detail(1) not_digits_category [of "[]"] show ?thesis by simp
  qed
qed

subsection \<open>Integer segments\<close>

text \<open>
  C5: a path of the news-detail shape whose year, month or day segment is not a
  non-empty run of decimal digits resolves to \<open>Resolver404\<close>, the not-found outcome, and
  to no other error.
\<close>

theorem malformed_int_not_found:
  assumes "CHR ''/'' \<notin> set y" "CHR ''/'' \<notin> set m" "CHR ''/'' \<notin> set d"
    and "\<not> (regex_ok IntConverter y \<and> regex_ok IntConverter m \<and> regex_ok IntConverter d)"
  shows "resolve (''/articles/'' @ y @ ''/'' @ m @ ''/'' @ d @ ''/'' @ s @ ''/'')
           = Inl Resolver404"
  unfolding resolve_not_found_iff
proof (intro allI notI)
  fix rm
  assume "resolve (''/articles/'' @ y @ ''/'' @ m @ ''/'' @ d @ ''/'' @ s @ ''/'') = Inr rm"
  from resolve_detail_shape [OF assms(1-3) this] assms(4) show False by simp
qed

theorem malformed_int_not_found_witness:
  "(CHR ''/'' \<notin> set ''2024'' \<and> CHR ''/'' \<notin> set ''a'' \<and> CHR ''/'' \<notin> set ''15'')
   \<and> \<not> (regex_ok IntConverter ''2024'' \<and> regex_ok IntConverter ''a''
          \<and> regex_ok IntConverter ''15'')
   \<and> resolve ''/articles/2024/a/15/x/'' = Inl Resolver404"
proof -
  have a: "CHR ''/'' \<notin> set ''2024''" and b: "CHR ''/'' \<notin> set ''a''"
    and c: "CHR ''/'' \<notin> set ''15''" by simp_all
  have h: "\<not> (regex_ok IntConverter ''2024'' \<and> regex_ok IntConverter ''a''
          \<and> regex_ok IntConverter ''15'')"
    by (simp add: regex_ok_def is_digit_def)
  have r: "resolve ''/articles/2024/a/15/x/'' = Inl Resolver404"
    using malformed_int_not_found [OF a b c h, of "''x''"] by simp
  from a b c have abc: "CHR ''/'' \<notin> set ''2024'' \<and> CHR ''/'' \<notin> set ''a'' \<and> CHR ''/'' \<notin> set ''15''"
    by (intro conjI)
  show ?thesis by (rule conjI [OF abc conjI [OF h r]])
qed

lemma resolve_test_detail:
  "resolve ''/articles/2024/01/15/test-article/'' =
     Inr \<lparr>func = ArticleDetail,
          kwargs = [(''year'', PyInt 2024), (''month'', PyInt 1), (''day'', PyInt 15),
                    (''slug'', PyStr ''test-article'')],
          url_name = ''news-detail''\<rparr>"
  by code_simp

text \<open>
  C6 as stated (year, month and day strictly positive) fails: the path with month segment
  \<open>0\<close> resolves to news-detail, with \<open>month = 0\<close>.
\<close>

theorem news_detail_zero_month_counterexample:
  "resolve ''/articles/2024/0/15/x/'' =
     Inr \<lparr>func = ArticleDetail,
          kwargs = [(''year'', PyInt 2024), (''month'', PyInt 0), (''day'', PyInt 15),
                    (''slug'', PyStr ''x'')],
          url_name = ''news-detail''\<rparr>
   \<and> \<not> (0::int) < 0"
  by code_simp

text \<open>
  C6, amended: the year, month and day parameters of news-detail are non-negative
  integers: a path resolves to news-detail only when each of its year, month and day
  segments is a non-empty run of decimal digits, and the parameter is that number, which
  is at least zero.
\<close>

theorem news_detail_int_params:
  assumes "resolve p = Inr rm" and "func rm = ArticleDetail"
  shows "\<exists>y m d sl. regex_ok IntConverter y \<and> regex_ok IntConverter m \<and> regex_ok IntConverter d
           \<and> p = ''/articles/'' @ y @ ''/'' @ m @ ''/'' @ d @ ''/'' @ sl @ ''/''
           \<and> kwargs rm = [(''year'', PyInt (int_of_digits y)), (''month'', PyInt (int_of_digits m)),
                          (''day'', PyInt (int_of_digits d)), (''slug'', PyStr sl)]
           \<and> 0 \<le> int_of_digits y \<and> 0 \<le> int_of_digits m \<and> 0 \<le> int_of_digits d"
  using assms(1)
proof (cases rule: resolve_cases)
  case home
  with assms(2) show ?thesis by simp
next
  case list
  with assms(2) show ?thesis by simp
next
  case (category sl)
  with assms(2) show ?thesis by simp
next
  case (detail y m d sl)
  have k: "kwargs rm = [(''year'', PyInt (int_of_digits y)), (''month'', PyInt (int_of_digits m)),
                          (''day'', PyInt (int_of_digits d)), (''slug'', PyStr sl)]"
    using detail(6) by simp
  note n = int_of_digits_nonneg [OF detail(1)] int_of_digits_nonneg [OF detail(2)]
    int_of_digits_nonneg [OF detail(3)]
  show ?thesis
    by (rule exI [of _ y], rule exI [of _ m], rule exI [of _ d], rule exI [of _ sl],
        intro conjI detail(1) detail(2) detail(3) detail(5) k n)
qed

theorem news_detail_int_params_witness:
  "\<exists>y m d sl. regex_ok IntConverter y \<and> regex_ok IntConverter m \<and> regex_ok IntConverter d
           \<and> ''/articles/2024/01/15/test-article/''
               = ''/articles/'' @ y @ ''/'' @ m @ ''/'' @ d @ ''/'' @ sl @ ''/''
           \<and> [(''year'', PyInt 2024), (''month'', PyInt 1), (''day'', PyInt 15),
               (''slug'', PyStr ''test-article'')]
             = [(''year'', PyInt (int_of_digits y)), (''month'', PyInt (int_of_digits m)),
                (''day'', PyInt (int_of_digits d)), (''slug'', PyStr sl)]
           \<and> 0 \<le> int_of_digits y \<and> 0 \<le> int_of_digits m \<and> 0 \<le> int_of_digits d"
  using news_detail_int_params [OF resolve_test_detail] by simp

subsection \<open>Slug segments\<close>

text \<open>
  C9: the two routes with a slug parameter match only paths whose slug segment is a
  non-empty run of ASCII letters, digits, hyphens and underscores; a path of either shape
  whose slug segment is anything else (it holds a dot, a space, a slash, or is empty)
  resolves to \<open>Resolver404\<close>.
\<close>

theorem slug_segment_charset:
  "(\<forall>rm. resolve p = Inr rm \<and> func rm = ArticleCategoryList \<longrightarrow>
       (\<exists>sl. regex_ok SlugConverter sl \<and> p = ''/articles/category/'' @ sl @ ''/''
             \<and> kwargs rm = [(''slug'', PyStr sl)]))
   \<and> (\<forall>rm. resolve p = Inr rm \<and> func rm = ArticleDetail \<longrightarrow>
       (\<exists>y m d sl. regex_ok SlugConverter sl
             \<and> p = ''/articles/'' @ y @ ''/'' @ m @ ''/'' @ d @ ''/'' @ sl @ ''/''
             \<and> map_of (kwargs rm) ''slug'' = Some (PyStr sl)))
   \<and> (\<not> regex_ok SlugConverter s \<longrightarrow>
         resolve (''/articles/category/'' @ s @ ''/'') = Inl Resolver404)
   \<and> (CHR ''/'' \<notin> set y \<and> CHR ''/'' \<notin> set m \<and> CHR ''/'' \<notin> set d
       \<and> \<not> regex_ok SlugConverter s \<longrightarrow>
         resolve (''/articles/'' @ y @ ''/'' @ m @ ''/'' @ d @ ''/'' @ s @ ''/'')
           = Inl Resolver404)"
proof (intro conjI allI impI)
  fix rm assume a: "resolve p = Inr rm \<and> func rm = ArticleCategoryList"
  then have r: "resolve p = Inr rm" and f: "func rm = ArticleCategoryList" by simp_all
  from r show "\<exists>sl. regex_ok SlugConverter sl \<and> p = ''/articles/category/'' @ sl @ ''/''
             \<and> kwargs rm = [(''slug'', PyStr sl)]"
  proof (cases rule: resolve_cases)
    case home
    with f show ?thesis by simp
  next
    case list
    with f show ?thesis by simp
  next
    case (category sl)
    have k: "kwargs rm = [(''slug'', PyStr sl)]" using category(3) by simp
    show ?thesis by (rule exI [of _ sl], intro conjI category(1) category(2) k)
  next
    case (detail y m d sl)
    with f show ?thesis by simp
  qed
next
  fix rm assume a: "resolve p = Inr rm \<and> func rm = ArticleDetail"
  then have r: "resolve p = Inr rm" and f: "func rm = ArticleDetail" by simp_all
  from r show "\<exists>y m d sl. regex_ok SlugConverter sl
             \<and> p = ''/articles/'' @ y @ ''/'' @ m @ ''/'' @ d @ ''/'' @ sl @ ''/''
             \<and> map_of (kwargs rm) ''slug'' = Some (PyStr sl)"
  proof (cases rule: resolve_cases)
    case home
    with f show ?thesis by simp
  next
    case list
    with f show ?thesis by simp
  next
    case (category sl)
    with f show ?thesis by simp
  next
    case (detail y m d sl)
    have k: "map_of (kwargs rm) ''slug'' = Some (PyStr sl)" using detail(6) by simp
    show ?thesis
      by (rule exI [of _ y], rule exI [of _ m], rule exI [of _ d], rule exI [of _ sl],
          intro conjI detail(4) detail(5) k)
  qed
next
  assume n: "\<not> regex_ok SlugConverter s"
  show "resolve (''/articles/category/'' @ s @ ''/'') = Inl Resolver404"
    unfolding resolve_not_found_iff
  proof (intro allI notI)
    fix rm assume "resolve (''/articles/category/'' @ s @ ''/'') = Inr rm"
    from resolve_category_shape [OF this] n show False by simp
  qed
next
  assume a: "CHR ''/'' \<notin> set y \<and> CHR ''/'' \<notin> set m \<and> CHR ''/'' \<notin> set d
       \<and> \<not> regex_ok SlugConverter s"
  then have ns: "CHR ''/'' \<notin> set y" "CHR ''/'' \<notin> set m" "CHR ''/'' \<notin> set d"
    and n: "\<not> regex_ok SlugConverter s" by simp_all
  show "resolve (''/articles/'' @ y @ ''/'' @ m @ ''/'' @ d @ ''/'' @ s @ ''/'')
           = Inl Resolver404"
    unfolding resolve_not_found_iff
  proof (intro allI notI)
    fix rm
    assume "resolve (''/articles/'' @ y @ ''/'' @ m @ ''/'' @ d @ ''/'' @ s @ ''/'') = Inr rm"
    from resolve_detail_shape [OF ns this] n show False by simp
  qed
qed

theorem slug_segment_charset_witness:
  "\<not> regex_ok SlugConverter ''a.b''
   \<and> resolve ''/articles/category/a.b/'' = Inl Resolver404
   \<and> (CHR ''/'' \<notin> set ''2024'' \<and> CHR ''/'' \<notin> set ''1'' \<and> CHR ''/'' \<notin> set ''15''
       \<and> \<not> regex_ok SlugConverter ''a.b'')
   \<and> resolve ''/articles/2024/1/15/a.b/'' = Inl Resolver404"
proof -
  have n: "\<not> regex_ok SlugConverter ''a.b''"
    by (simp add: regex_ok_def is_slug_char_def)
  have h: "CHR ''/'' \<notin> set ''2024'' \<and> CHR ''/'' \<notin> set ''1'' \<and> CHR ''/'' \<notin> set ''15''
       \<and> \<not> regex_ok SlugConverter ''a.b''"
    using n by simp
  have c1: "resolve ''/articles/category/a.b/'' = Inl Resolver404"
    using slug_segment_charset [THEN conjunct2, THEN conjunct2, THEN conjunct1, THEN mp, OF n]
    by simp
  have c2: "resolve ''/articles/2024/1/15/a.b/'' = Inl Resolver404"
    using slug_segment_charset [THEN conjunct2, THEN conjunct2, THEN conjunct2, THEN mp, OF h]
    by simp
  show ?thesis by (rule conjI [OF n conjI [OF c1 conjI [OF h c2]]])
qed


subsection \<open>Trailing slashes\<close>

text \<open>
  C10: resolution is exact on trailing slashes: \<open>/articles\<close> resolves to the articles
  list and \<open>/articles/\<close> does not resolve; \<open>/articles/category/\<close> + slug without the
  trailing slash does not resolve.
\<close>

theorem trailing_slash_exact:
  "resolve ''/articles'' = Inr \<lparr>func = ArticleList, kwargs = [], url_name = ''articles-list''\<rparr>
   \<and> resolve ''/articles/'' = Inl Resolver404
   \<and> (CHR ''/'' \<notin> set s \<longrightarrow> resolve (''/articles/category/'' @ s) = Inl Resolver404)"
proof (intro conjI impI)
  show "resolve ''/articles''
          = Inr \<lparr>func = ArticleList, kwargs = [], url_name = ''articles-list''\<rparr>"
    by code_simp
  show "resolve ''/articles/'' = Inl Resolver404"
    by code_simp
  show "resolve (''/articles/category/'' @ s) = Inl Resolver404" if "CHR ''/'' \<notin> set s"
    using that by (rule resolve_category_no_trailing_slash)
qed

theorem trailing_slash_exact_witness:
  "CHR ''/'' \<notin> set ''test-category''
   \<and> resolve ''/articles/category/test-category'' = Inl Resolver404"
proof -
  have h: "CHR ''/'' \<notin> set ''test-category''" by simp
  have c: "resolve ''/articles/category/test-category'' = Inl Resolver404"
    using trailing_slash_exact [THEN conjunct2, THEN conjunct2, THEN mp, OF h] by simp
  show ?thesis by (rule conjI [OF h c])
qed

end
